theory Spec2Isabelle
  imports Main "HOL-Library.While_Combinator" "HOL-Library.AList"
begin

section \<open>Common data\<close>

text \<open>
  A grammar symbol is a Python \<open>str\<close>, modelled as \<open>string\<close>. A production is a
  list of symbols. A grammar is a Python \<open>dict\<close> from a nonterminal to the list of its
  productions; a \<open>dict\<close> iterates in insertion order, so it is an association list
  (\<open>AList.update\<close> keeps the position of a key that is already there and appends a new
  one, as assignment to a \<open>dict\<close> does).
\<close>

type_synonym symbol = string
type_synonym production = "symbol list"
type_synonym grammar = "(symbol \<times> production list) list"

text \<open>Exceptions of the Python runtime that the embedded functions can raise.\<close>

datatype py_error = KeyError | IndexError | RecursionError

section \<open>expt 5/main.py: elimination of immediate left recursion\<close>

text \<open>The string \<open>'\<epsilon>'\<close> of expt 4 and expt 5, as its two UTF-8 bytes.\<close>

definition EPSILON_u :: symbol where
  "EPSILON_u = [CHR 0xCE, CHR 0xB5]"

text \<open>\<open>grammar[nt]\<close> on a \<open>defaultdict(list)\<close>: a missing key reads as \<open>[]\<close>.\<close>

definition dd_get :: "grammar \<Rightarrow> symbol \<Rightarrow> production list" where
  "dd_get g nt = (case map_of g nt of None \<Rightarrow> [] | Some ps \<Rightarrow> ps)"

text \<open>\<open>p and p[0] == nt\<close> and \<open>p and p[0] != nt\<close>.\<close>

fun starts_with :: "symbol \<Rightarrow> production \<Rightarrow> bool" where
  "starts_with nt [] = False"
| "starts_with nt (x # xs) = (x = nt)"

fun starts_other :: "symbol \<Rightarrow> production \<Rightarrow> bool" where
  "starts_other nt [] = False"
| "starts_other nt (x # xs) = (x \<noteq> nt)"

text \<open>The body of the loop \<open>for nt in list(grammar.keys())\<close>.\<close>

definition elr_step :: "grammar \<Rightarrow> symbol \<Rightarrow> grammar \<Rightarrow> grammar" where
  "elr_step g nt new_grammar =
     (let alpha = map tl (filter (starts_with nt) (dd_get g nt));
          beta = filter (starts_other nt) (dd_get g nt)
      in if alpha \<noteq> [] then
           let new_nt = nt @ [CHR 0x27];
               ng1 = AList.update nt
                       (if beta \<noteq> [] then map (\<lambda>p. p @ [new_nt]) beta else [[new_nt]])
                       new_grammar
           in AList.update new_nt (map (\<lambda>p. p @ [new_nt]) alpha @ [[EPSILON_u]]) ng1
         else AList.update nt (dd_get g nt) new_grammar)"

definition eliminate_left_recursion :: "grammar \<Rightarrow> grammar" where
  "eliminate_left_recursion g = fold (elr_step g) (map fst g) []"

text \<open>
  A grammar has immediate left recursion when some production listed for a key starts
  with that key.
\<close>

definition immediate_left_recursion :: "grammar \<Rightarrow> bool" where
  "immediate_left_recursion g =
     (\<exists>(nt, ps) \<in> set g. \<exists>p \<in> set ps. starts_with nt p)"

section \<open>expt 4/main.py: iterative FIRST and FOLLOW\<close>

text \<open>
  A Python \<open>set\<close> of symbols is a HOL set. \<open>first_sets\<close> and \<open>follow_sets\<close> are
  created as \<open>{nt: set() for nt in grammar}\<close> and no key is ever added or removed; each
  subscript \<open>first_sets[k]\<close>, \<open>follow_sets[k]\<close> inside the solvers is by a loop
  variable that ranges over the keys of \<open>grammar\<close> or by a symbol for which
  \<open>is_nonterminal\<close> has just answered true. Such a dict is a function from symbols to
  sets that is \<open>{}\<close> off the keys. The one subscript that can raise is
  \<open>follow_sets[start_symbol]\<close>, and it is modelled as raising.
\<close>

type_synonym sets_dict = "symbol \<Rightarrow> symbol set"

definition is_nonterminal :: "symbol \<Rightarrow> grammar \<Rightarrow> bool" where
  "is_nonterminal s g = (s \<in> set (map fst g))"

text \<open>
  The loop \<open>for symbol in production\<close> of \<open>compute_first_sets\<close>; the third component
  of the result is \<open>derives_epsilon\<close>. The state is the dict and the flag \<open>changed\<close>.
  (\<open>symbol_first\<close> may be the very set object \<open>first_sets[non_terminal]\<close>; the update
  adds no \<open>EPSILON\<close>, so the later test \<open>EPSILON not in symbol_first\<close> reads the same
  either way.)
\<close>

fun first_walk :: "grammar \<Rightarrow> symbol \<Rightarrow> production \<Rightarrow> sets_dict \<times> bool
    \<Rightarrow> sets_dict \<times> bool \<times> bool" where
  "first_walk g non_terminal [] (first_sets, changed) = (first_sets, changed, True)"
| "first_walk g non_terminal (symbol # rest) (first_sets, changed) =
     (let symbol_first =
            (if symbol = EPSILON_u then {EPSILON_u}
             else if is_nonterminal symbol g then first_sets symbol
             else {symbol});
          before_size = card (first_sets non_terminal);
          first_sets' = first_sets(non_terminal :=
                          first_sets non_terminal \<union> (symbol_first - {EPSILON_u}));
          changed' = (if card (first_sets' non_terminal) \<noteq> before_size then True else changed)
      in if EPSILON_u \<notin> symbol_first then (first_sets', changed', False)
         else first_walk g non_terminal rest (first_sets', changed'))"

text \<open>The body of \<open>for production in production_list\<close>.\<close>

definition add_epsilon :: "symbol \<Rightarrow> sets_dict \<times> bool \<Rightarrow> sets_dict \<times> bool" where
  "add_epsilon non_terminal st =
     (case st of (first_sets, changed) \<Rightarrow>
        if EPSILON_u \<notin> first_sets non_terminal
        then (first_sets(non_terminal := insert EPSILON_u (first_sets non_terminal)), True)
        else (first_sets, changed))"

definition first_prod :: "grammar \<Rightarrow> symbol \<Rightarrow> production \<Rightarrow> sets_dict \<times> bool
    \<Rightarrow> sets_dict \<times> bool" where
  "first_prod g non_terminal production st =
     (if production = [EPSILON_u] then add_epsilon non_terminal st
      else case first_walk g non_terminal production st of
             (first_sets', changed', derives_epsilon) \<Rightarrow>
               if derives_epsilon then add_epsilon non_terminal (first_sets', changed')
               else (first_sets', changed'))"

text \<open>One run of the body of \<open>while changed\<close>: \<open>changed = False\<close>, then every production.\<close>

definition first_pass :: "grammar \<Rightarrow> sets_dict \<Rightarrow> sets_dict \<times> bool" where
  "first_pass g first_sets =
     fold (\<lambda>(non_terminal, production_list) st.
             fold (first_prod g non_terminal) production_list st)
          g (first_sets, False)"

text \<open>\<open>None\<close> is a loop that never ends.\<close>

definition compute_first_sets :: "grammar \<Rightarrow> sets_dict option" where
  "compute_first_sets g =
     map_option fst
       (while_option snd (\<lambda>(first_sets, changed). first_pass g first_sets) (\<lambda>nt. {}, True))"

text \<open>\<open>first_of_sequence\<close>: the loop with its \<open>break\<close> and its \<open>else\<close> clause.\<close>

fun fos_loop :: "grammar \<Rightarrow> sets_dict \<Rightarrow> production \<Rightarrow> symbol set \<Rightarrow> symbol set" where
  "fos_loop g first_sets [] result = insert EPSILON_u result"
| "fos_loop g first_sets (symbol # rest) result =
     (if symbol = EPSILON_u then fos_loop g first_sets rest (insert EPSILON_u result)
      else let symbol_first = (if is_nonterminal symbol g then first_sets symbol else {symbol});
               result' = result \<union> (symbol_first - {EPSILON_u})
           in if EPSILON_u \<notin> symbol_first then result'
              else fos_loop g first_sets rest result')"

definition first_of_sequence :: "production \<Rightarrow> sets_dict \<Rightarrow> grammar \<Rightarrow> symbol set" where
  "first_of_sequence sequence first_sets g =
     (if sequence = [] then {EPSILON_u} else fos_loop g first_sets sequence {})"

text \<open>\<open>update_set\<close> returns the updated target and whether its size changed.\<close>

definition update_set :: "symbol set \<Rightarrow> symbol set \<Rightarrow> symbol set \<times> bool" where
  "update_set target additions = (target \<union> additions, card (target \<union> additions) \<noteq> card target)"

definition update_follow :: "symbol \<Rightarrow> symbol set \<Rightarrow> sets_dict \<times> bool \<Rightarrow> sets_dict \<times> bool" where
  "update_follow symbol additions st =
     (case st of (follow_sets, changed) \<Rightarrow>
        case update_set (follow_sets symbol) additions of
          (target, grown) \<Rightarrow> (follow_sets(symbol := target), if grown then True else changed))"

text \<open>
  The loop \<open>for index, symbol in enumerate(production)\<close>: the list argument is
  \<open>production[index:]\<close>, so its tail is \<open>remainder = production[index + 1:]\<close>.
\<close>

fun follow_prod :: "grammar \<Rightarrow> sets_dict \<Rightarrow> symbol \<Rightarrow> production \<Rightarrow> sets_dict \<times> bool
    \<Rightarrow> sets_dict \<times> bool" where
  "follow_prod g first_sets head [] st = st"
| "follow_prod g first_sets head (symbol # remainder) st =
     (if \<not> is_nonterminal symbol g then follow_prod g first_sets head remainder st
      else let lookahead_first = first_of_sequence remainder first_sets g;
               st1 = update_follow symbol (lookahead_first - {EPSILON_u}) st;
               st2 = (if remainder = [] \<or> EPSILON_u \<in> lookahead_first
                      then update_follow symbol (fst st1 head) st1 else st1)
           in follow_prod g first_sets head remainder st2)"

definition follow_pass :: "grammar \<Rightarrow> sets_dict \<Rightarrow> sets_dict \<Rightarrow> sets_dict \<times> bool" where
  "follow_pass g first_sets follow_sets =
     fold (\<lambda>(head, production_list) st.
             fold (follow_prod g first_sets head) production_list st)
          g (follow_sets, False)"

definition compute_follow_sets :: "grammar \<Rightarrow> sets_dict \<Rightarrow> symbol
    \<Rightarrow> (py_error + sets_dict) option" where
  "compute_follow_sets g first_sets start_symbol =
     (if \<not> is_nonterminal start_symbol g then Some (Inl KeyError)
      else map_option (Inr \<circ> fst)
             (while_option snd (\<lambda>(follow_sets, changed). follow_pass g first_sets follow_sets)
                ((\<lambda>nt. {})(start_symbol := {''$''}), True)))"

section \<open>Auxiliary notions for the fixed-point loops\<close>

text \<open>
  Every symbol that occurs in a right-hand side; together with the epsilon symbol (and
  the end marker, for FOLLOW) it bounds every set the solvers build.
\<close>

definition symbols_of :: "grammar \<Rightarrow> symbol set" where
  "symbols_of g = (\<Union>(nt, ps) \<in> set g. \<Union>p \<in> set ps. set p)"

definition bounded_by :: "symbol set \<Rightarrow> sets_dict \<times> bool \<Rightarrow> bool" where
  "bounded_by U s = (\<forall>k. fst s k \<subseteq> U)"

text \<open>
  One or more loop bodies lead from \<open>s\<close> to \<open>t\<close>: every set has only grown, only sets
  of keys in \<open>K\<close> were touched, all sets stay inside \<open>U\<close>, and the flag is raised only
  if it was raised before or some set really grew.
\<close>

definition grow_rel :: "symbol set \<Rightarrow> symbol set \<Rightarrow> sets_dict \<times> bool \<Rightarrow> sets_dict \<times> bool \<Rightarrow> bool" where
  "grow_rel K U s t =
     ((\<forall>k. fst s k \<subseteq> fst t k) \<and> (\<forall>k. k \<notin> K \<longrightarrow> fst t k = fst s k) \<and>
      bounded_by U t \<and> (snd t \<longrightarrow> snd s \<or> fst t \<noteq> fst s))"

text \<open>The number of symbols still missing from the sets of the keys, plus one while the flag is up.\<close>

definition slack :: "symbol set \<Rightarrow> symbol set \<Rightarrow> sets_dict \<times> bool \<Rightarrow> nat" where
  "slack K U s = (\<Sum>k\<in>K. card (U - fst s k)) + (if snd s then 1 else 0)"

text \<open>The bound on the FOLLOW sets: the end marker, the symbols of the grammar and the given FIRST sets.\<close>

definition follow_universe :: "grammar \<Rightarrow> sets_dict \<Rightarrow> symbol set" where
  "follow_universe g first_sets =
     insert ''$'' (symbols_of g \<union> (\<Union>k \<in> set (map fst g). first_sets k))"


section \<open>expt 4/first_n_follow.py: recursive, memoised FIRST\<close>

text \<open>
  \<open>normalize_symbol\<close>: \<open>str.strip\<close> removes white space at both ends; the model has
  the white-space characters of ASCII (code points 9 to 13, 28 to 32).
\<close>

definition py_space :: "char \<Rightarrow> bool" where
  "py_space c = (of_char c \<in> {9, 10, 11, 12, 13, 28, 29, 30, 31, 32 :: nat})"

definition strip :: "string \<Rightarrow> string" where
  "strip s = rev (dropWhile py_space (rev (dropWhile py_space s)))"

definition EPSILON_ALIASES :: "symbol set" where
  "EPSILON_ALIASES =
     {EPSILON_u, ''#'', ''epsilon'', ''EPSILON'', ''lambda'', [CHR 0xCE, CHR 0x9B], ''eps''}"

definition normalize_symbol :: "string \<Rightarrow> symbol" where
  "normalize_symbol token =
     (let token' = strip token
      in if token' = [] then [] else if token' \<in> EPSILON_ALIASES then EPSILON_u else token')"

text \<open>
  \<open>memo\<close> is a dict that starts empty and gains keys; \<open>visiting\<close> is a set; both are
  shared by all recursive calls, so they are passed in and returned.
  \<open>cal_first_symbols\<close> is the loop \<open>for symbol in production\<close> (its last result is
  \<open>all_can_be_epsilon\<close>) and \<open>cal_first_productions\<close> is the loop
  \<open>for production in productions[s]\<close>; their first argument \<open>rec\<close> stands for the
  recursive call \<open>cal_first(symbol, productions, memo, visiting)\<close>. The first argument
  of \<open>cal_first\<close> is the number of nested calls the interpreter still allows: Python
  raises \<open>RecursionError\<close> beyond its recursion limit.
\<close>

type_synonym memo = "symbol \<rightharpoonup> symbol set"

type_synonym cal_state = "symbol set \<times> memo \<times> symbol set"

fun cal_first_symbols :: "(symbol \<Rightarrow> memo \<Rightarrow> symbol set \<Rightarrow> py_error + cal_state)
      \<Rightarrow> grammar \<Rightarrow> production \<Rightarrow> symbol set \<Rightarrow> memo \<Rightarrow> symbol set
      \<Rightarrow> py_error + (cal_state \<times> bool)" where
  "cal_first_symbols rec productions [] first memo visiting =
     Inr ((first, memo, visiting), True)"
| "cal_first_symbols rec productions (symbol # rest) first memo visiting =
     (if symbol = EPSILON_u then cal_first_symbols rec productions rest first memo visiting
      else if symbol \<in> set (map fst productions) then
        case rec symbol memo visiting of
          Inl e \<Rightarrow> Inl e
        | Inr (sub_first, memo', visiting') \<Rightarrow>
            if EPSILON_u \<in> sub_first
            then cal_first_symbols rec productions rest
                   (first \<union> (sub_first - {EPSILON_u})) memo' visiting'
            else Inr ((first \<union> (sub_first - {EPSILON_u}), memo', visiting'), False)
      else Inr ((insert symbol first, memo, visiting), False))"

fun cal_first_productions :: "(symbol \<Rightarrow> memo \<Rightarrow> symbol set \<Rightarrow> py_error + cal_state)
      \<Rightarrow> grammar \<Rightarrow> production list \<Rightarrow> symbol set \<Rightarrow> memo \<Rightarrow> symbol set
      \<Rightarrow> py_error + cal_state" where
  "cal_first_productions rec productions [] first memo visiting = Inr (first, memo, visiting)"
| "cal_first_productions rec productions (production # rest) first memo visiting =
     (if production = [] then
        cal_first_productions rec productions rest (insert EPSILON_u first) memo visiting
      else case cal_first_symbols rec productions production first memo visiting of
             Inl e \<Rightarrow> Inl e
           | Inr ((first', memo', visiting'), all_can_be_epsilon) \<Rightarrow>
               cal_first_productions rec productions rest
                 (if all_can_be_epsilon then insert EPSILON_u first' else first') memo' visiting')"

primrec cal_first :: "nat \<Rightarrow> symbol \<Rightarrow> grammar \<Rightarrow> memo \<Rightarrow> symbol set
      \<Rightarrow> py_error + cal_state" where
  "cal_first 0 s productions memo visiting = Inl RecursionError"
| "cal_first (Suc depth) s productions memo visiting =
     (case memo s of
        Some first \<Rightarrow> Inr (first, memo, visiting)
      | None \<Rightarrow>
          if s \<notin> set (map fst productions) then Inr ({normalize_symbol s}, memo, visiting)
          else if s \<in> visiting then Inr ({}, memo, visiting)
          else case cal_first_productions
                      (\<lambda>symbol memo' visiting'. cal_first depth symbol productions memo' visiting')
                      productions (dd_get productions s) {} memo (insert s visiting) of
                 Inl e \<Rightarrow> Inl e
               | Inr (first, memo', visiting') \<Rightarrow>
                   Inr (first, memo'(s \<mapsto> first), visiting' - {s}))"

text \<open>
  The loop of \<open>main\<close>: \<open>first[s] = cal_first(s, productions, first_memo)\<close> for every key,
  with one memo for all calls and a fresh \<open>visiting\<close> set for each.
\<close>

fun cal_first_all :: "nat \<Rightarrow> grammar \<Rightarrow> symbol list \<Rightarrow> memo \<times> memo
      \<Rightarrow> py_error + (memo \<times> memo)" where
  "cal_first_all depth productions [] st = Inr st"
| "cal_first_all depth productions (s # rest) (first, first_memo) =
     (case cal_first depth s productions first_memo {} of
        Inl e \<Rightarrow> Inl e
      | Inr (f, memo', visiting') \<Rightarrow>
          cal_first_all depth productions rest (first(s \<mapsto> f), memo'))"

definition main_first :: "nat \<Rightarrow> grammar \<Rightarrow> py_error + memo" where
  "main_first depth productions =
     map_sum id fst (cal_first_all depth productions (map fst productions) (Map.empty, Map.empty))"

text \<open>
  The grammar \<open>A -> B a | c\<close>, \<open>B -> A b | d\<close>, whose two nonterminals refer to each
  other.
\<close>

definition cyclic_grammar :: grammar where
  "cyclic_grammar = [(''A'', [[''B'', ''a''], [''c'']]), (''B'', [[''A'', ''b''], [''d'']])]"

section \<open>Theorems\<close>

subsection \<open>Growth of the sets across loop bodies\<close>

lemma grow_rel_refl: "bounded_by U s \<Longrightarrow> grow_rel K U s s"
  by (simp add: grow_rel_def)

lemma grow_rel_bounded: "grow_rel K U s t \<Longrightarrow> bounded_by U t"
  by (simp add: grow_rel_def)

lemma grow_rel_trans:
  assumes "grow_rel K U s t" "grow_rel K U t u"
  shows "grow_rel K U s u"
proof -
  have le1: "\<And>k. fst s k \<subseteq> fst t k" and le2: "\<And>k. fst t k \<subseteq> fst u k"
    using assms by (auto simp: grow_rel_def)
  have "fst t = fst s" if "fst u = fst s"
  proof
    fix k show "fst t k = fst s k" using le1[of k] le2[of k] that by auto
  qed
  then have "snd u \<longrightarrow> snd s \<or> fst u \<noteq> fst s"
    using assms by (auto simp: grow_rel_def)
  moreover have "\<forall>k. fst s k \<subseteq> fst u k" using le1 le2 by blast
  ultimately show ?thesis using assms by (simp add: grow_rel_def)
qed

lemma grow_rel_update:
  assumes "bounded_by U (d, ch)" "nt \<in> K" "X \<subseteq> U"
    and "c \<longrightarrow> ch \<or> d nt \<union> X \<noteq> d nt"
  shows "grow_rel K U (d, ch) (d(nt := d nt \<union> X), c)"
proof -
  have "d(nt := d nt \<union> X) \<noteq> d" if "d nt \<union> X \<noteq> d nt"
    using that by (metis fun_upd_same)
  then show ?thesis
    using assms by (auto simp: grow_rel_def bounded_by_def)
qed

lemma grow_rel_fold:
  assumes "\<And>x s. x \<in> set xs \<Longrightarrow> bounded_by U s \<Longrightarrow> grow_rel K U s (f x s)"
    and "bounded_by U s"
  shows "grow_rel K U s (fold f xs s)"
  using assms
proof (induction xs arbitrary: s)
  case Nil
  then show ?case by (simp add: grow_rel_refl)
next
  case (Cons x xs)
  have 1: "grow_rel K U s (f x s)" using Cons.prems by simp
  have 2: "grow_rel K U (f x s) (fold f xs (f x s))"
    using Cons.IH Cons.prems(1) grow_rel_bounded[OF 1] by simp
  show ?case using grow_rel_trans[OF 1 2] by simp
qed

lemma slack_less:
  assumes "finite K" "finite U" "bounded_by U (d, True)" "grow_rel K U (d, False) t"
  shows "slack K U t < slack K U (d, True)"
proof -
  obtain d' c where t: "t = (d', c)" by (cases t)
  have le: "\<And>k. d k \<subseteq> d' k" and fr: "\<And>k. k \<notin> K \<Longrightarrow> d' k = d k"
    and bd: "\<And>k. d' k \<subseteq> U" and ch: "c \<Longrightarrow> d' \<noteq> d"
    using assms(4) by (auto simp: grow_rel_def t bounded_by_def)
  have mono: "\<And>k. card (U - d' k) \<le> card (U - d k)"
    using le assms(2) by (metis Diff_mono card_mono finite_Diff subset_refl)
  have sum_le: "(\<Sum>k\<in>K. card (U - d' k)) \<le> (\<Sum>k\<in>K. card (U - d k))"
    by (rule sum_mono) (rule mono)
  show ?thesis
  proof (cases c)
    case False
    then show ?thesis using sum_le by (simp add: slack_def t)
  next
    case True
    then obtain k where k: "d' k \<noteq> d k" using ch by fastforce
    then have kK: "k \<in> K" using fr by blast
    have "d k \<subset> d' k" using k le by blast
    then have "U - d' k \<subset> U - d k" using bd by blast
    then have "card (U - d' k) < card (U - d k)"
      using assms(2) by (simp add: psubset_card_mono)
    then have "(\<Sum>k\<in>K. card (U - d' k)) < (\<Sum>k\<in>K. card (U - d k))"
      using kK mono assms(1) by (intro sum_strict_mono_ex1) auto
    then show ?thesis by (simp add: slack_def t)
  qed
qed

subsection \<open>expt 4: the FIRST solver\<close>

lemma add_epsilon_grows:
  assumes "bounded_by U s" "nt \<in> K" "EPSILON_u \<in> U"
  shows "grow_rel K U s (add_epsilon nt s)"
proof -
  obtain d ch where s: "s = (d, ch)" by (cases s)
  show ?thesis
  proof (cases "EPSILON_u \<in> d nt")
    case True
    then show ?thesis using assms(1) by (simp add: add_epsilon_def s grow_rel_refl)
  next
    case False
    have "grow_rel K U (d, ch) (d(nt := d nt \<union> {EPSILON_u}), True)"
      using assms False by (intro grow_rel_update) (auto simp: s)
    then show ?thesis using False by (simp add: add_epsilon_def s)
  qed
qed

lemma first_walk_grows:
  assumes "bounded_by U (d, ch)" "nt \<in> K" "set p \<subseteq> U"
  shows "grow_rel K U (d, ch) (fst (first_walk g nt p (d, ch)), fst (snd (first_walk g nt p (d, ch))))"
  using assms
proof (induction p arbitrary: d ch)
  case Nil
  then show ?case by (simp add: grow_rel_refl)
next
  case (Cons symbol rest)
  define sf where "sf = (if symbol = EPSILON_u then {EPSILON_u}
             else if is_nonterminal symbol g then d symbol else {symbol})"
  define d1 where "d1 = d(nt := d nt \<union> (sf - {EPSILON_u}))"
  define c1 where "c1 = (if card (d1 nt) \<noteq> card (d nt) then True else ch)"
  have sfU: "sf - {EPSILON_u} \<subseteq> U"
    using Cons.prems(1,3) by (auto simp: sf_def bounded_by_def)
  have "c1 \<longrightarrow> ch \<or> d nt \<union> (sf - {EPSILON_u}) \<noteq> d nt"
    by (auto simp: c1_def d1_def)
  then have 1: "grow_rel K U (d, ch) (d1, c1)"
    unfolding d1_def using Cons.prems sfU by (intro grow_rel_update) auto
  show ?case
  proof (cases "EPSILON_u \<in> sf")
    case False
    then have "first_walk g nt (symbol # rest) (d, ch) = (d1, c1, False)"
      by (simp add: sf_def d1_def c1_def Let_def)
    then show ?thesis using 1 by simp
  next
    case True
    then have eq: "first_walk g nt (symbol # rest) (d, ch) = first_walk g nt rest (d1, c1)"
      by (simp add: sf_def d1_def c1_def Let_def)
    have 2: "grow_rel K U (d1, c1) (fst (first_walk g nt rest (d1, c1)), fst (snd (first_walk g nt rest (d1, c1))))"
      using Cons.IH[of d1 c1] grow_rel_bounded[OF 1] Cons.prems by simp
    show ?thesis unfolding eq by (rule grow_rel_trans[OF 1 2])
  qed
qed

lemma first_prod_grows:
  assumes "bounded_by U s" "nt \<in> K" "set p \<subseteq> U" "EPSILON_u \<in> U"
  shows "grow_rel K U s (first_prod g nt p s)"
proof -
  obtain d ch where s: "s = (d, ch)" by (cases s)
  obtain d' c' de where w: "first_walk g nt p (d, ch) = (d', c', de)"
    by (cases "first_walk g nt p (d, ch)")
  have 1: "grow_rel K U (d, ch) (d', c')"
    using first_walk_grows[of U d ch nt K p g] assms w by (simp add: s)
  have 2: "grow_rel K U (d', c') (add_epsilon nt (d', c'))"
    using add_epsilon_grows[OF grow_rel_bounded[OF 1] assms(2,4)] .
  show ?thesis
    using 1 grow_rel_trans[OF 1 2] add_epsilon_grows[OF assms(1,2,4)]
    by (simp add: first_prod_def s w)
qed

lemma first_pass_grows:
  assumes "bounded_by (insert EPSILON_u (symbols_of g)) (d, False)"
  shows "grow_rel (set (map fst g)) (insert EPSILON_u (symbols_of g)) (d, False) (first_pass g d)"
  unfolding first_pass_def
proof (rule grow_rel_fold[OF _ assms])
  fix x s
  assume x: "x \<in> set g" and b: "bounded_by (insert EPSILON_u (symbols_of g)) s"
  obtain nt ps where xe: "x = (nt, ps)" by (cases x)
  have "grow_rel (set (map fst g)) (insert EPSILON_u (symbols_of g)) s (fold (first_prod g nt) ps s)"
  proof (rule grow_rel_fold[OF _ b])
    fix p s'
    assume p: "p \<in> set ps" and b': "bounded_by (insert EPSILON_u (symbols_of g)) s'"
    have "set p \<subseteq> symbols_of g" using x p xe by (auto simp: symbols_of_def)
    moreover have "nt \<in> set (map fst g)" using x xe by force
    ultimately show "grow_rel (set (map fst g)) (insert EPSILON_u (symbols_of g)) s' (first_prod g nt p s')"
      using b' by (intro first_prod_grows) auto
  qed
  then show "grow_rel (set (map fst g)) (insert EPSILON_u (symbols_of g)) s
     ((case x of (non_terminal, production_list) \<Rightarrow> fold (first_prod g non_terminal) production_list) s)"
    by (simp add: xe)
qed

lemma finite_symbols_of: "finite (symbols_of g)"
  by (auto simp: symbols_of_def)


subsection \<open>expt 4: the FOLLOW solver\<close>

lemma fos_loop_subset:
  assumes "set p \<subseteq> V" "\<forall>k \<in> set (map fst g). first_sets k \<subseteq> V" "result \<subseteq> insert EPSILON_u V"
  shows "fos_loop g first_sets p result \<subseteq> insert EPSILON_u V"
  using assms
proof (induction p arbitrary: result)
  case Nil
  then show ?case by auto
next
  case (Cons symbol rest)
  have r: "set rest \<subseteq> V" using Cons.prems(1) by simp
  show ?case
  proof (cases "symbol = EPSILON_u")
    case True
    then show ?thesis using Cons.IH[OF r Cons.prems(2), of "insert EPSILON_u result"] Cons.prems(3)
      by simp
  next
    case False
    define sf where "sf = (if is_nonterminal symbol g then first_sets symbol else {symbol})"
    have "sf \<subseteq> V" using Cons.prems(1,2) by (auto simp: sf_def is_nonterminal_def)
    then have 1: "result \<union> (sf - {EPSILON_u}) \<subseteq> insert EPSILON_u V"
      using Cons.prems(3) by auto
    have eq: "fos_loop g first_sets (symbol # rest) result =
        (if EPSILON_u \<notin> sf then result \<union> (sf - {EPSILON_u})
         else fos_loop g first_sets rest (result \<union> (sf - {EPSILON_u})))"
      using False by (simp add: sf_def Let_def)
    show ?thesis
    proof (cases "EPSILON_u \<in> sf")
      case True
      then show ?thesis unfolding eq using Cons.IH[OF r Cons.prems(2) 1] by simp
    next
      case False
      then show ?thesis unfolding eq using 1 by simp
    qed
  qed
qed

lemma first_of_sequence_subset:
  assumes "set p \<subseteq> V" "\<forall>k \<in> set (map fst g). first_sets k \<subseteq> V"
  shows "first_of_sequence p first_sets g - {EPSILON_u} \<subseteq> V"
proof -
  have "fos_loop g first_sets p {} \<subseteq> insert EPSILON_u V"
    by (rule fos_loop_subset) (use assms in auto)
  then show ?thesis by (auto simp: first_of_sequence_def)
qed

lemma update_follow_grows:
  assumes "bounded_by U s" "symbol \<in> K" "X \<subseteq> U"
  shows "grow_rel K U s (update_follow symbol X s)"
proof -
  obtain d ch where s: "s = (d, ch)" by (cases s)
  have "grow_rel K U (d, ch)
          (d(symbol := d symbol \<union> X), if card (d symbol \<union> X) \<noteq> card (d symbol) then True else ch)"
    using assms by (intro grow_rel_update) (auto simp: s)
  then show ?thesis by (simp add: update_follow_def update_set_def s)
qed

lemma follow_prod_grows:
  assumes "bounded_by U s" "set p \<subseteq> V" "\<forall>k \<in> set (map fst g). first_sets k \<subseteq> V"
    and "V \<subseteq> U"
  shows "grow_rel (set (map fst g)) U s (follow_prod g first_sets head p s)"
  using assms(1,2)
proof (induction p arbitrary: s)
  case Nil
  then show ?case by (simp add: grow_rel_refl)
next
  case (Cons symbol remainder)
  have r: "set remainder \<subseteq> V" using Cons.prems(2) by simp
  show ?case
  proof (cases "is_nonterminal symbol g")
    case False
    then show ?thesis using Cons.IH[OF Cons.prems(1) r] by simp
  next
    case True
    then have k: "symbol \<in> set (map fst g)" by (simp add: is_nonterminal_def)
    define la where "la = first_of_sequence remainder first_sets g"
    define st1 where "st1 = update_follow symbol (la - {EPSILON_u}) s"
    define st2 where "st2 = (if remainder = [] \<or> EPSILON_u \<in> la
                      then update_follow symbol (fst st1 head) st1 else st1)"
    have "la - {EPSILON_u} \<subseteq> U"
      using first_of_sequence_subset[OF r assms(3)] assms(4) by (auto simp: la_def)
    then have 1: "grow_rel (set (map fst g)) U s st1"
      unfolding st1_def using Cons.prems(1) k by (intro update_follow_grows) auto
    have b1: "bounded_by U st1" by (rule grow_rel_bounded[OF 1])
    then have "fst st1 head \<subseteq> U" by (simp add: bounded_by_def)
    then have "grow_rel (set (map fst g)) U st1 (update_follow symbol (fst st1 head) st1)"
      using b1 k by (intro update_follow_grows) auto
    then have 2: "grow_rel (set (map fst g)) U st1 st2"
      using b1 by (simp add: st2_def grow_rel_refl)
    have 3: "grow_rel (set (map fst g)) U st2 (follow_prod g first_sets head remainder st2)"
      using Cons.IH[OF grow_rel_bounded[OF 2] r] .
    have "follow_prod g first_sets head (symbol # remainder) s
            = follow_prod g first_sets head remainder st2"
      using True by (simp add: la_def st1_def st2_def Let_def)
    then show ?thesis using grow_rel_trans[OF grow_rel_trans[OF 1 2] 3] by simp
  qed
qed

lemma follow_pass_grows:
  assumes "bounded_by (follow_universe g first_sets) (d, False)"
  shows "grow_rel (set (map fst g)) (follow_universe g first_sets) (d, False)
           (follow_pass g first_sets d)"
  unfolding follow_pass_def
proof (rule grow_rel_fold[OF _ assms])
  fix x s
  let ?U = "follow_universe g first_sets"
  let ?V = "symbols_of g \<union> (\<Union>k \<in> set (map fst g). first_sets k)"
  assume x: "x \<in> set g" and b: "bounded_by ?U s"
  obtain head ps where xe: "x = (head, ps)" by (cases x)
  have "grow_rel (set (map fst g)) ?U s (fold (follow_prod g first_sets head) ps s)"
  proof (rule grow_rel_fold[OF _ b])
    fix p s'
    assume p: "p \<in> set ps" and b': "bounded_by ?U s'"
    have "set p \<subseteq> ?V" using x p xe by (auto simp: symbols_of_def)
    then show "grow_rel (set (map fst g)) ?U s' (follow_prod g first_sets head p s')"
      using b' by (intro follow_prod_grows[where V = ?V]) (auto simp: follow_universe_def)
  qed
  then show "grow_rel (set (map fst g)) ?U s
     ((case x of (head, production_list) \<Rightarrow> fold (follow_prod g first_sets head) production_list) s)"
    by (simp add: xe)
qed

lemma finite_follow_universe:
  assumes "\<And>k. k \<in> set (map fst g) \<Longrightarrow> finite (first_sets k)"
  shows "finite (follow_universe g first_sets)"
  using assms by (auto simp: follow_universe_def finite_symbols_of)

text \<open>
  C8. For every grammar and every start symbol that is one of its keys (the loader takes
  the first left-hand side, so a grammar with at least one production has one), the
  solver \<open>compute_follow_sets\<close> returns, and the FOLLOW set it returns for the start
  symbol contains the end marker \<open>$\<close>: the marker is seeded before the loop and every
  pass only adds to the sets. The FIRST sets handed in are finite, as every Python set is.
\<close>

theorem follow_start_has_end_marker:
  assumes "is_nonterminal start_symbol g"
    and "\<forall>k \<in> set (map fst g). finite (first_sets k)"
  shows "\<exists>follow_sets. compute_follow_sets g first_sets start_symbol = Some (Inr follow_sets)
           \<and> ''$'' \<in> follow_sets start_symbol"
proof -
  let ?U = "follow_universe g first_sets"
  let ?K = "set (map fst g)"
  let ?P = "\<lambda>s. bounded_by ?U s \<and> ''$'' \<in> fst s start_symbol"
  let ?c = "\<lambda>(follow_sets, changed). follow_pass g first_sets follow_sets"
  let ?init = "((\<lambda>nt. {})(start_symbol := {''$''}), True)"
  have fin: "finite ?U" using assms(2) by (intro finite_follow_universe) auto
  have step: "?P (?c s) \<and> slack ?K ?U (?c s) < slack ?K ?U s" if h: "?P s \<and> snd s" for s
  proof -
    obtain d where s: "s = (d, True)" using h by (cases s) auto
    have b0: "bounded_by ?U (d, False)" using h by (simp add: s bounded_by_def)
    have g: "grow_rel ?K ?U (d, False) (follow_pass g first_sets d)"
      by (rule follow_pass_grows[OF b0])
    have "slack ?K ?U (follow_pass g first_sets d) < slack ?K ?U (d, True)"
      by (rule slack_less[OF _ fin _ g]) (use h s in auto)
    moreover have "''$'' \<in> fst (follow_pass g first_sets d) start_symbol"
      using g h by (auto simp: grow_rel_def s)
    ultimately show ?thesis using grow_rel_bounded[OF g] by (simp add: s)
  qed
  have init: "?P ?init" by (simp add: bounded_by_def follow_universe_def)
  have "\<exists>t. while_option snd ?c ?init = Some t"
    by (rule measure_while_option_Some[where P = ?P and f = "slack ?K ?U"]) (use step init in auto)
  then obtain t where t: "while_option snd ?c ?init = Some t" ..
  have "?P t"
    by (rule while_option_rule[where P = ?P, OF _ t init]) (use step in auto)
  then show ?thesis using t assms(1) by (simp add: compute_follow_sets_def)
qed


text \<open>A run of C8 on the grammar \<open>S -> a S | \<epsilon>\<close> with \<open>FIRST(S) = {a, \<epsilon>}\<close>.\<close>

theorem follow_start_has_end_marker_witness:
  "\<exists>follow_sets.
      compute_follow_sets [(''S'', [[''a'', ''S''], [EPSILON_u]])]
        ((\<lambda>nt. {})(''S'' := {''a'', EPSILON_u})) ''S'' = Some (Inr follow_sets)
      \<and> ''$'' \<in> follow_sets ''S''"
  using follow_start_has_end_marker
    [of "''S''" "[(''S'', [[''a'', ''S''], [EPSILON_u]])]" "(\<lambda>nt. {})(''S'' := {''a'', EPSILON_u})"]
  by (simp add: is_nonterminal_def)

subsection \<open>expt 4: totality of the FIRST solver\<close>

text \<open>
  C3 (as amended). The iterative solver \<open>compute_first_sets\<close> of expt 4 returns a
  FIRST-set dict for every grammar, whatever cycles its nonterminals form: each pass
  only adds symbols of the grammar (or epsilon) to the sets of its keys, and a pass that
  adds nothing ends the loop.
\<close>

theorem compute_first_sets_total: "\<exists>first_sets. compute_first_sets g = Some first_sets"
proof -
  let ?U = "insert EPSILON_u (symbols_of g)"
  let ?K = "set (map fst g)"
  have "\<exists>t. while_option snd (\<lambda>(first_sets, changed). first_pass g first_sets) (\<lambda>nt. {}, True) = Some t"
  proof (rule measure_while_option_Some[where P = "bounded_by ?U" and f = "slack ?K ?U"])
    fix s :: "sets_dict \<times> bool"
    assume b: "bounded_by ?U s" and c: "snd s"
    obtain d where s: "s = (d, True)" using c by (cases s) auto
    have b0: "bounded_by ?U (d, False)" using b by (simp add: s bounded_by_def)
    have g: "grow_rel ?K ?U (d, False) (first_pass g d)" by (rule first_pass_grows[OF b0])
    have "slack ?K ?U (first_pass g d) < slack ?K ?U (d, True)"
      by (rule slack_less[OF _ _ _ g]) (use b s finite_symbols_of in auto)
    then show "bounded_by ?U (case s of (first_sets, changed) \<Rightarrow> first_pass g first_sets) \<and>
        slack ?K ?U (case s of (first_sets, changed) \<Rightarrow> first_pass g first_sets) < slack ?K ?U s"
      using grow_rel_bounded[OF g] by (simp add: s)
  next
    show "bounded_by ?U (\<lambda>nt. {}, True)" by (simp add: bounded_by_def)
  qed
  then show ?thesis by (auto simp: compute_first_sets_def)
qed


subsection \<open>expt 4: recursive against iterative FIRST\<close>

text \<open>
  C6. On the mutually recursive grammar \<open>A -> B a | c\<close>, \<open>B -> A b | d\<close> the recursive,
  memoised \<open>cal_first\<close>, run by \<open>main\<close> over all keys (with any recursion limit of at
  least three nested calls), records \<open>FIRST(B) = {d}\<close>: the call for \<open>B\<close> made while
  \<open>A\<close> is being visited gets the empty set for \<open>A\<close> and is memoised. The iterative
  solver \<open>compute_first_sets\<close> returns \<open>FIRST(B) = {c, d}\<close>, a proper superset, so the two
  computations differ.
\<close>

theorem cal_first_underpopulated:
  "main_first (Suc (Suc (Suc n))) cyclic_grammar
     = Inr [''A'' \<mapsto> {''c'', ''d''}, ''B'' \<mapsto> {''d''}]
   \<and> (\<exists>first_sets. compute_first_sets cyclic_grammar = Some first_sets
         \<and> first_sets ''B'' = {''c'', ''d''} \<and> {''d''} \<subset> first_sets ''B'')"
proof -
  have rec: "main_first (Suc (Suc (Suc n))) cyclic_grammar
      = Inr [''A'' \<mapsto> {''c'', ''d''}, ''B'' \<mapsto> {''d''}]"
    by (simp add: main_first_def cyclic_grammar_def dd_get_def EPSILON_u_def insert_commute)
  have "\<exists>first_sets. compute_first_sets cyclic_grammar = Some first_sets
          \<and> first_sets ''B'' = {''c'', ''d''}"
    by (simp add: compute_first_sets_def cyclic_grammar_def while_option_unfold first_pass_def
          first_prod_def add_epsilon_def is_nonterminal_def EPSILON_u_def Let_def insert_commute)
  then obtain first_sets where it: "compute_first_sets cyclic_grammar = Some first_sets"
    "first_sets ''B'' = {''c'', ''d''}" by blast
  have "{''d''} \<subset> first_sets ''B''" unfolding it(2) by auto
  with rec it show ?thesis by blast
qed

subsection \<open>expt 5: eliminate_left_recursion\<close>

text \<open>
  C10. The claim: the grammar returned by \<open>eliminate_left_recursion\<close> never has a
  production for a key \<open>N\<close> that starts with \<open>N\<close>. On the grammar \<open>A -> A | b\<close> the
  alternative \<open>A -> A\<close> is left-recursive with an empty tail, so \<open>alpha = [[]]\<close> is a
  non-empty list and the new nonterminal gets the production \<open>A' -> A'\<close>: the returned
  grammar is \<open>A -> b A'\<close>, \<open>A' -> A' | \<epsilon>\<close>, which is immediately left-recursive.
\<close>

theorem eliminate_left_recursion_unit_self:
  "eliminate_left_recursion [(''A'', [[''A''], [''b'']])] =
     [(''A'', [[''b'', ''A'' @ [CHR 0x27]]]),
      (''A'' @ [CHR 0x27], [[''A'' @ [CHR 0x27]], [EPSILON_u]])]
   \<and> immediate_left_recursion (eliminate_left_recursion [(''A'', [[''A''], [''b'']])])"
  by (simp add: eliminate_left_recursion_def elr_step_def dd_get_def
        immediate_left_recursion_def Let_def)

end
